theory Spec2Isabelle
  imports Main "HOL-Library.Word"
begin

section \<open>The padding routines of iFR (class Support of iFR.py)\<close>

text \<open>
  The two routines work on a file named by its path. The file system is a partial map from
  paths to contents, a content is a list of bytes, and every routine returns its result (or
  the exception it raises) together with the file system it leaves behind.
\<close>

type_synonym byte = "8 word"
type_synonym path = string
type_synonym filesystem = "path \<rightharpoonup> byte list"

text \<open>
  The exceptions the calls of the two routines raise as a consequence of the file alone:
  \<open>open(file_path, 'rb')\<close> on a missing file, and a seek or a truncation to a negative
  position (errno 22, EINVAL).
\<close>

datatype error = FileNotFoundError | OSError_EINVAL

subsection \<open>The file calls\<close>

text \<open>
  \<open>file.seek(offset, 2)\<close>: the new position is the size of the file plus the offset; a
  position before the start of the file is refused by the operating system and Python raises
  OSError.
\<close>

definition seek_from_end :: "byte list \<Rightarrow> int \<Rightarrow> error + nat" where
  "seek_from_end content offset =
     (if int (length content) + offset < 0 then Inl OSError_EINVAL
      else Inr (nat (int (length content) + offset)))"

text \<open>\<open>file.read(1)\<close> at a position: one byte, or the empty byte string at the end of file.\<close>

definition read_one :: "byte list \<Rightarrow> nat \<Rightarrow> byte list" where
  "read_one content pos = take 1 (drop pos content)"

text \<open>
  \<open>os.truncate(path, length)\<close>: a negative length raises OSError, a shorter length cuts the
  file, a longer one extends it with zero bytes.
\<close>

definition os_truncate :: "byte list \<Rightarrow> int \<Rightarrow> error + byte list" where
  "os_truncate content len =
     (if len < 0 then Inl OSError_EINVAL
      else if nat len \<le> length content then Inr (take (nat len) content)
      else Inr (content @ replicate (nat len - length content) 0))"

text \<open>\<open>bs * n\<close> on byte strings: \<open>n\<close> copies, and the empty byte string when \<open>n \<le> 0\<close>.\<close>

definition bytes_mul :: "byte list \<Rightarrow> int \<Rightarrow> byte list" where
  "bytes_mul bs n = (if n \<le> 0 then [] else concat (replicate (nat n) bs))"

subsection \<open>RemovePadding\<close>

text \<open>
  The \<open>while True\<close> loop of RemovePadding, on the content of the open file, with the loop
  variable \<open>padding_size\<close>. A failing seek leaves the loop with the exception.
\<close>

function scan_loop :: "byte list \<Rightarrow> int \<Rightarrow> error + int" where
  "scan_loop content padding_size =
     (case seek_from_end content (- 1 - padding_size) of
        Inl e \<Rightarrow> Inl e
      | Inr pos \<Rightarrow>
          (let byte = read_one content pos in
           if byte = [] then Inr padding_size
           else if byte = [0xFF] then scan_loop content (padding_size + 1)
           else Inr padding_size))"
  by pat_completeness auto

termination
proof (relation "measure (\<lambda>(content, padding_size). nat (int (length content) - padding_size))")
  show "wf (measure (\<lambda>(content, padding_size). nat (int (length content) - padding_size)))"
    by simp
next
  fix content :: "byte list" and padding_size :: int and pos :: nat and byte :: "byte list"
  assume "seek_from_end content (- 1 - padding_size) = Inr pos"
  then have "padding_size < int (length content)"
    by (simp add: seek_from_end_def split: if_splits)
  then show "((content, padding_size + 1), (content, padding_size))
        \<in> measure (\<lambda>(content, padding_size). nat (int (length content) - padding_size))"
    by simp
qed

declare scan_loop.simps [simp del]

definition RemovePadding :: "path \<Rightarrow> filesystem \<Rightarrow> (error + int) \<times> filesystem" where
  "RemovePadding file_path fs =
     (case fs file_path of
        None \<Rightarrow> (Inl FileNotFoundError, fs)
      | Some content \<Rightarrow>
          (case scan_loop content 0 of
             Inl e \<Rightarrow> (Inl e, fs)
           | Inr padding_size \<Rightarrow>
               (case os_truncate content (int (length content) - padding_size) of
                  Inl e \<Rightarrow> (Inl e, fs)
                | Inr content' \<Rightarrow> (Inr padding_size, fs(file_path \<mapsto> content')))))"

subsection \<open>AddPadding\<close>

text \<open>
  \<open>open(file_path, 'ab')\<close> creates a missing file, empty; the write appends to the end of
  the file.
\<close>

definition AddPadding :: "path \<Rightarrow> int \<Rightarrow> filesystem \<Rightarrow> (error + int) \<times> filesystem" where
  "AddPadding file_path result_size fs =
     (let content = (case fs file_path of None \<Rightarrow> [] | Some c \<Rightarrow> c);
          current_size = int (length content);
          padding_size = result_size - current_size
      in (Inr padding_size, fs(file_path \<mapsto> content @ bytes_mul [0xFF] padding_size)))"

section \<open>Facts about the file calls\<close>

lemma seek_from_end_Inr:
  "seek_from_end content (- 1 - padding_size) = Inr pos \<longleftrightarrow>
     padding_size < int (length content) \<and> pos = nat (int (length content) - 1 - padding_size)"
  by (auto simp add: seek_from_end_def)

lemma read_one_inside: "pos < length content \<Longrightarrow> read_one content pos = [content ! pos]"
  by (simp add: read_one_def take_Suc_conv_app_nth Cons_nth_drop_Suc [symmetric])

lemma os_truncate_shorter:
  "0 \<le> len \<Longrightarrow> nat len \<le> length content \<Longrightarrow> os_truncate content len = Inr (take (nat len) content)"
  by (simp add: os_truncate_def)

section \<open>The scan of RemovePadding\<close>

text \<open>
  Once \<open>padding_size\<close> has reached the size of the file, the next seek asks for the position
  \<open>-1\<close> and raises: the loop is left with the exception and never reads an empty byte string.
\<close>

lemma scan_loop_past_start:
  "int (length content) \<le> padding_size \<Longrightarrow> scan_loop content padding_size = Inl OSError_EINVAL"
  by (subst scan_loop.simps) (simp add: seek_from_end_def)

text \<open>
  One pass through the loop body while the seek stays inside the file.
\<close>

lemma scan_loop_step:
  assumes "0 \<le> padding_size" "padding_size < int (length content)"
  shows "scan_loop content padding_size =
    (if content ! nat (int (length content) - 1 - padding_size) = 0xFF
     then scan_loop content (padding_size + 1) else Inr padding_size)"
proof -
  let ?pos = "nat (int (length content) - 1 - padding_size)"
  have s: "seek_from_end content (- 1 - padding_size) = Inr ?pos"
    using assms by (simp add: seek_from_end_Inr)
  have "?pos < length content" using assms by linarith
  then have r: "read_one content ?pos = [content ! ?pos]" by (rule read_one_inside)
  show ?thesis by (subst scan_loop.simps) (simp add: s r)
qed

text \<open>
  On a file of fill bytes only (the empty file among them) the scan counts every byte and then
  raises.
\<close>

lemma scan_loop_all_fill:
  "\<forall>b\<in>set content. b = 0xFF \<Longrightarrow> 0 \<le> padding_size \<Longrightarrow>
     scan_loop content padding_size = Inl OSError_EINVAL"
proof (induction content padding_size rule: scan_loop.induct)
  case (1 content padding_size)
  show ?case
  proof (cases "padding_size < int (length content)")
    case False
    then show ?thesis by (simp add: scan_loop_past_start)
  next
    case True
    let ?pos = "nat (int (length content) - 1 - padding_size)"
    have pos: "?pos < length content" using True 1 by linarith
    then have ff: "content ! ?pos = 0xFF" using 1(2) by simp
    have s: "seek_from_end content (- 1 - padding_size) = Inr ?pos"
      using True by (simp add: seek_from_end_Inr)
    have r: "read_one content ?pos = [0xFF]" using pos ff by (simp add: read_one_inside)
    have "scan_loop content (padding_size + 1) = Inl OSError_EINVAL"
      using 1(1) [OF s refl _ r] 1(2,3) by (simp add: r)
    then show ?thesis using scan_loop_step [of padding_size content] True 1(3) ff by simp
  qed
qed

text \<open>
  On a file with a byte other than the fill byte, the scan returns the number of fill bytes
  after the last such byte.
\<close>

lemma scan_loop_stops:
  "x \<noteq> 0xFF \<Longrightarrow> 0 \<le> padding_size \<Longrightarrow> padding_size \<le> int m \<Longrightarrow>
     scan_loop (pre @ x # replicate m 0xFF) padding_size = Inr (int m)"
proof (induction "nat (int m - padding_size)" arbitrary: padding_size)
  case 0
  then have eq: "padding_size = int m" by simp
  have "(pre @ x # replicate m 0xFF) ! nat (int (length (pre @ x # replicate m 0xFF)) - 1 - padding_size) = x"
    by (simp add: eq nth_append)
  then show ?case using 0 scan_loop_step [of padding_size "pre @ x # replicate m 0xFF"]
    by (simp add: eq)
next
  case (Suc k)
  then have lt: "padding_size < int m" by linarith
  let ?c = "pre @ x # replicate m 0xFF"
  have idx: "nat (int (length ?c) - 1 - padding_size) = length pre + Suc (nat (int m - 1 - padding_size))"
    using lt Suc.prems by simp
  have "?c ! nat (int (length ?c) - 1 - padding_size) = 0xFF"
    unfolding idx using lt Suc.prems by (simp add: nth_append)
  moreover have "scan_loop ?c (padding_size + 1) = Inr (int m)"
    using Suc.hyps(1) [of "padding_size + 1"] Suc.hyps(2) Suc.prems lt by simp
  ultimately show ?case
    using scan_loop_step [of padding_size ?c] Suc.prems lt by simp
qed

text \<open>
  Every content is of one of the two kinds.
\<close>

lemma split_trailing_fill:
  "(\<forall>b\<in>set content. b = (0xFF :: byte)) \<or>
   (\<exists>pre x m. content = pre @ x # replicate m 0xFF \<and> x \<noteq> 0xFF)"
proof (induction content rule: rev_induct)
  case Nil
  then show ?case by simp
next
  case (snoc b content)
  show ?case
  proof (cases "b = 0xFF")
    case False
    then have "content @ [b] = content @ b # replicate 0 0xFF \<and> b \<noteq> 0xFF" by simp
    then show ?thesis by blast
  next
    case True
    from snoc show ?thesis
    proof
      assume "\<forall>b\<in>set content. b = 0xFF"
      then show ?thesis using True by simp
    next
      assume "\<exists>pre x m. content = pre @ x # replicate m 0xFF \<and> x \<noteq> 0xFF"
      then obtain pre x m where c: "content = pre @ x # replicate m 0xFF" and x: "x \<noteq> 0xFF"
        by blast
      have "content @ [b] = pre @ x # replicate (Suc m) 0xFF"
        using c True by (simp add: replicate_append_same)
      then show ?thesis using x by blast
    qed
  qed
qed

section \<open>RemovePadding and AddPadding on a file\<close>

lemma RemovePadding_missing:
  "fs file_path = None \<Longrightarrow> RemovePadding file_path fs = (Inl FileNotFoundError, fs)"
  by (simp add: RemovePadding_def)

lemma RemovePadding_all_fill:
  assumes "fs file_path = Some content" "\<forall>b\<in>set content. b = 0xFF"
  shows "RemovePadding file_path fs = (Inl OSError_EINVAL, fs)"
proof -
  have "scan_loop content 0 = Inl OSError_EINVAL"
    using assms(2) by (simp add: scan_loop_all_fill)
  then show ?thesis using assms(1) by (simp add: RemovePadding_def)
qed

text \<open>
  Where the file holds a byte other than the fill byte, RemovePadding returns the length of the
  run of fill bytes at the end of the file and cuts the file by exactly that run.
\<close>

lemma RemovePadding_strips:
  assumes "fs file_path = Some (pre @ x # replicate m 0xFF)" "x \<noteq> 0xFF"
  shows "RemovePadding file_path fs = (Inr (int m), fs(file_path \<mapsto> pre @ [x]))"
proof -
  let ?c = "pre @ x # replicate m 0xFF"
  have s: "scan_loop ?c 0 = Inr (int m)"
    using assms(2) by (simp add: scan_loop_stops)
  have "os_truncate ?c (int (length ?c) - int m) = Inr (take (nat (int (length ?c) - int m)) ?c)"
    by (rule os_truncate_shorter) simp_all
  moreover have "nat (int (length ?c) - int m) = Suc (length pre)" by simp
  ultimately have t: "os_truncate ?c (int (length ?c) - int m) = Inr (pre @ [x])"
    by simp
  show ?thesis
    unfolding RemovePadding_def using assms(1) s t by simp
qed

lemma RemovePadding_scenario_1:
  "RemovePadding ''rom.bin'' [''rom.bin'' \<mapsto> [0x01, 0x02, 0xFF, 0xFF, 0xFF]]
     = (Inr 3, [''rom.bin'' \<mapsto> [0x01, 0x02]])"
  by (simp add: RemovePadding_def scan_loop.simps seek_from_end_def read_one_def os_truncate_def)

lemma RemovePadding_returns:
  assumes "fs file_path = Some content" "RemovePadding file_path fs = (Inr n, fs')"
  shows "\<exists>pre x m. content = pre @ x # replicate m 0xFF \<and> x \<noteq> 0xFF \<and> n = int m
            \<and> fs' = fs(file_path \<mapsto> pre @ [x])"
proof -
  have "\<not> (\<forall>b\<in>set content. b = 0xFF)"
    using RemovePadding_all_fill [of fs file_path content] assms by auto
  then obtain pre x m where c: "content = pre @ x # replicate m 0xFF" and x: "x \<noteq> 0xFF"
    using split_trailing_fill [of content] by blast
  have "RemovePadding file_path fs = (Inr (int m), fs(file_path \<mapsto> pre @ [x]))"
    using RemovePadding_strips [of fs file_path pre x m] assms(1) c x by simp
  then show ?thesis using assms(2) c x by auto
qed

text \<open>
  Whenever a call of RemovePadding returns, a second call returns 0 and changes nothing.
\<close>

lemma RemovePadding_again:
  assumes "RemovePadding file_path fs = (Inr n, fs')"
  shows "RemovePadding file_path fs' = (Inr 0, fs')"
proof -
  obtain content where f: "fs file_path = Some content"
    using assms by (cases "fs file_path") (simp_all add: RemovePadding_def)
  obtain pre x and m :: nat where x: "x \<noteq> 0xFF" and fs': "fs' = fs(file_path \<mapsto> pre @ [x])"
    using RemovePadding_returns [of fs file_path content n fs'] f assms by blast
  have "fs' file_path = Some (pre @ x # replicate 0 0xFF)" by (simp add: fs')
  then have "RemovePadding file_path fs' = (Inr (int 0), fs'(file_path \<mapsto> pre @ [x]))"
    using x RemovePadding_strips [of fs' file_path pre x 0] by blast
  then show ?thesis by (simp add: fs')
qed

text \<open>
  On a file that holds a byte other than the fill byte RemovePadding returns, and the file it
  leaves has a last byte, which is not the fill byte.
\<close>

lemma RemovePadding_ends_in_content:
  assumes "fs file_path = Some content" "\<exists>b\<in>set content. b \<noteq> 0xFF"
  shows "\<exists>n content'. RemovePadding file_path fs = (Inr n, fs(file_path \<mapsto> content'))
           \<and> content' \<noteq> [] \<and> last content' \<noteq> 0xFF"
proof -
  obtain pre x and m :: nat where c: "content = pre @ x # replicate m 0xFF" and x: "x \<noteq> 0xFF"
    using split_trailing_fill [of content] assms(2) by blast
  have "RemovePadding file_path fs = (Inr (int m), fs(file_path \<mapsto> pre @ [x]))"
    using RemovePadding_strips [of fs file_path pre x m] assms(1) c x by simp
  moreover have "pre @ [x] \<noteq> [] \<and> last (pre @ [x]) \<noteq> 0xFF" using x by simp
  ultimately show ?thesis by blast
qed

lemma AddPadding_existing:
  assumes "fs file_path = Some content"
  shows "AddPadding file_path result_size fs =
    (Inr (result_size - int (length content)),
     fs(file_path \<mapsto> content @ replicate (nat (result_size - int (length content))) 0xFF))"
  using assms by (simp add: AddPadding_def bytes_mul_def Let_def)

text \<open>
  AddPadding followed by RemovePadding on a non-empty file whose last byte is not the fill
  byte gives the file back.
\<close>

lemma AddPadding_then_RemovePadding:
  assumes "fs file_path = Some content" "content \<noteq> []" "last content \<noteq> 0xFF"
  shows "RemovePadding file_path (snd (AddPadding file_path result_size fs)) =
    (Inr (int (nat (result_size - int (length content)))), fs(file_path \<mapsto> content))"
proof -
  let ?m = "nat (result_size - int (length content))"
  have c: "content = butlast content @ [last content]" using assms(2) by simp
  let ?fs = "snd (AddPadding file_path result_size fs)"
  have "?fs = fs(file_path \<mapsto> content @ replicate ?m 0xFF)"
    using assms(1) by (simp add: AddPadding_existing)
  then have fs1: "?fs = fs(file_path \<mapsto> butlast content @ last content # replicate ?m 0xFF)"
    using c by (metis append_Cons append_Nil append_assoc)
  then have "?fs file_path = Some (butlast content @ last content # replicate ?m 0xFF)" by simp
  then have "RemovePadding file_path ?fs
     = (Inr (int ?m), ?fs(file_path \<mapsto> butlast content @ [last content]))"
    using assms(3) RemovePadding_strips [of ?fs file_path "butlast content" "last content" ?m]
    by blast
  then show ?thesis using c fs1 by simp
qed

section \<open>The claims\<close>

text \<open>
  Claim C1. RemovePadding is to return, for every file, the length of the run of 0xFF bytes at
  the end of the file and to cut the file by that run. The code does so on every file that holds
  a byte other than 0xFF (\<open>RemovePadding_strips\<close>), but not on a file of 0xFF bytes only: on
  the two-byte file 0xFF 0xFF the third seek asks for a position before the start of the file,
  OSError is raised, no length is returned and the file keeps its two bytes.
\<close>

theorem RemovePadding_two_fill_bytes_raises:
  "RemovePadding ''rom.bin'' [''rom.bin'' \<mapsto> [0xFF, 0xFF]]
     = (Inl OSError_EINVAL, [''rom.bin'' \<mapsto> [0xFF, 0xFF]])"
  by (simp add: RemovePadding_def scan_loop.simps seek_from_end_def read_one_def)

text \<open>
  Claim C2. On the empty file RemovePadding is to return 0 without a fault. In the code the
  first seek, \<open>file.seek(-1, 2)\<close>, asks for the position \<open>-1\<close> and raises OSError; the test
  for the empty byte string, which the source comments as the start of the file, is never reached.
  The file stays empty.
\<close>

theorem RemovePadding_empty_file_raises:
  "RemovePadding ''rom.bin'' [''rom.bin'' \<mapsto> []] = (Inl OSError_EINVAL, [''rom.bin'' \<mapsto> []])"
  by (simp add: RemovePadding_def scan_loop.simps seek_from_end_def read_one_def)

text \<open>
  Claim C3. On a file of N fill bytes RemovePadding is to return N and leave the file empty. On
  the file 0xFF 0xFF 0xFF the code counts the three bytes, the fourth seek raises OSError, and the
  file keeps its three bytes (for every N: \<open>RemovePadding_all_fill\<close>).
\<close>

theorem RemovePadding_three_fill_bytes_raises:
  "RemovePadding ''rom.bin'' [''rom.bin'' \<mapsto> [0xFF, 0xFF, 0xFF]]
     = (Inl OSError_EINVAL, [''rom.bin'' \<mapsto> [0xFF, 0xFF, 0xFF]])"
  by (simp add: RemovePadding_def scan_loop.simps seek_from_end_def read_one_def)

text \<open>
  Claim C4. AddPadding to a target size T not below the size of the file, followed by
  RemovePadding, is to give the file back where its last byte, if any, is not the fill byte. On a
  non-empty file the code does (\<open>AddPadding_then_RemovePadding\<close>). On the empty file with
  T = 2, AddPadding writes two fill bytes and RemovePadding then raises OSError, leaving the two
  fill bytes in the file.
\<close>

theorem AddPadding_RemovePadding_empty_raises:
  "RemovePadding ''rom.bin'' (snd (AddPadding ''rom.bin'' 2 [''rom.bin'' \<mapsto> []]))
     = (Inl OSError_EINVAL, [''rom.bin'' \<mapsto> [0xFF, 0xFF]])"
  by (simp add: AddPadding_def bytes_mul_def RemovePadding_def scan_loop.simps seek_from_end_def
      read_one_def numeral_2_eq_2)

text \<open>
  Claim C5. On a file of size N and a target size T with N \<le> T, AddPadding returns T - N and
  appends a suffix of T - N bytes, all of them 0xFF, after the unchanged N bytes, so that the file
  has size T; when T = N the suffix is empty and the file is as it was.
\<close>

theorem AddPadding_reaches_target:
  assumes "fs file_path = Some content" "int (length content) \<le> result_size"
  shows "\<exists>suffix. AddPadding file_path result_size fs
            = (Inr (result_size - int (length content)), fs(file_path \<mapsto> content @ suffix))
          \<and> int (length suffix) = result_size - int (length content)
          \<and> int (length (content @ suffix)) = result_size
          \<and> (\<forall>b\<in>set suffix. b = 0xFF)
          \<and> (result_size = int (length content) \<longrightarrow>
                 suffix = [] \<and> AddPadding file_path result_size fs = (Inr 0, fs))"
proof -
  let ?suffix = "replicate (nat (result_size - int (length content))) (0xFF :: byte)"
  have a: "AddPadding file_path result_size fs
      = (Inr (result_size - int (length content)), fs(file_path \<mapsto> content @ ?suffix))"
    using assms(1) by (rule AddPadding_existing)
  have l: "int (length ?suffix) = result_size - int (length content)"
    using assms(2) by simp
  have t: "int (length (content @ ?suffix)) = result_size"
    using assms(2) by simp
  have f: "\<forall>b\<in>set ?suffix. b = 0xFF" by simp
  have e: "result_size = int (length content) \<longrightarrow>
      ?suffix = [] \<and> AddPadding file_path result_size fs = (Inr 0, fs)"
  proof
    assume eq: "result_size = int (length content)"
    have "fs(file_path \<mapsto> content) = fs" using assms(1) by (rule map_upd_triv)
    then show "?suffix = [] \<and> AddPadding file_path result_size fs = (Inr 0, fs)"
      using a by (simp add: eq)
  qed
  show ?thesis using a l t f e by blast
qed

theorem AddPadding_reaches_target_witness:
  "AddPadding ''rom.bin'' 5 [''rom.bin'' \<mapsto> [0x01, 0x02]]
     = (Inr 3, [''rom.bin'' \<mapsto> [0x01, 0x02, 0xFF, 0xFF, 0xFF]])
   \<and> AddPadding ''rom.bin'' 2 [''rom.bin'' \<mapsto> [0x01, 0x02]]
     = (Inr 0, [''rom.bin'' \<mapsto> [0x01, 0x02]])"
proof
  obtain suffix where
    a: "AddPadding ''rom.bin'' 5 [''rom.bin'' \<mapsto> [0x01, 0x02]]
         = (Inr 3, [''rom.bin'' \<mapsto> [0x01, 0x02] @ suffix])"
    and l: "int (length suffix) = 3" and f: "\<forall>b\<in>set suffix. b = 0xFF"
    using AddPadding_reaches_target [of "[''rom.bin'' \<mapsto> [0x01, 0x02]]" "''rom.bin''" "[0x01, 0x02]" 5]
    by auto
  from l have "length suffix = Suc (Suc (Suc 0))" by simp
  then obtain x y z where "suffix = [x, y, z]"
    by (auto simp add: length_Suc_conv)
  then have "suffix = [0xFF, 0xFF, 0xFF]" using f by simp
  then show "AddPadding ''rom.bin'' 5 [''rom.bin'' \<mapsto> [0x01, 0x02]]
     = (Inr 3, [''rom.bin'' \<mapsto> [0x01, 0x02, 0xFF, 0xFF, 0xFF]])"
    using a by simp
next
  show "AddPadding ''rom.bin'' 2 [''rom.bin'' \<mapsto> [0x01, 0x02]]
     = (Inr 0, [''rom.bin'' \<mapsto> [0x01, 0x02]])"
    using AddPadding_reaches_target [of "[''rom.bin'' \<mapsto> [0x01, 0x02]]" "''rom.bin''" "[0x01, 0x02]" 2]
    by auto
qed

text \<open>
  Claim C6 has AddPadding fail with an error when the target size is below the size of the
  file. The source has no such test: on the three-byte file 0x01 0x02 0x03 and the target size 1
  the call returns -2 and the file keeps its three bytes.
\<close>

theorem AddPadding_undersized_returns_counterexample:
  "fst (AddPadding ''rom.bin'' 1 [''rom.bin'' \<mapsto> [0x01, 0x02, 0x03]]) = Inr (- 2)
   \<and> snd (AddPadding ''rom.bin'' 1 [''rom.bin'' \<mapsto> [0x01, 0x02, 0x03]]) ''rom.bin''
      = Some [0x01, 0x02, 0x03]"
  by (simp add: AddPadding_def bytes_mul_def)

text \<open>
  Claim C6, as amended: with a target size below the size of the file, AddPadding raises no
  error; it returns normally and the file keeps its content, neither cut nor written to.
\<close>

theorem AddPadding_undersized_no_error:
  assumes "fs file_path = Some content" "result_size < int (length content)"
  shows "\<not> isl (fst (AddPadding file_path result_size fs))
       \<and> snd (AddPadding file_path result_size fs) file_path = Some content"
  using assms by (simp add: AddPadding_existing)

theorem AddPadding_undersized_no_error_witness:
  "\<not> isl (fst (AddPadding ''rom.bin'' 0 [''rom.bin'' \<mapsto> [0xAB]]))
   \<and> snd (AddPadding ''rom.bin'' 0 [''rom.bin'' \<mapsto> [0xAB]]) ''rom.bin'' = Some [0xAB]"
  using AddPadding_undersized_no_error [of "[''rom.bin'' \<mapsto> [0xAB]]" "''rom.bin''" "[0xAB]" 0]
  by simp

text \<open>
  Claim C7. After RemovePadding, the last byte of the file, if any byte remains, is to be other
  than the fill byte, a file of fill bytes only becoming empty. The code meets this on every file
  that holds a byte other than 0xFF (\<open>RemovePadding_ends_in_content\<close>). On the four-byte
  file 0xFF 0xFF 0xFF 0xFF the fifth seek raises OSError, nothing is cut, and the file is left
  with its four bytes, the last of them the fill byte.
\<close>

theorem RemovePadding_leaves_fill_at_end:
  "RemovePadding ''rom.bin'' [''rom.bin'' \<mapsto> [0xFF, 0xFF, 0xFF, 0xFF]]
     = (Inl OSError_EINVAL, [''rom.bin'' \<mapsto> [0xFF, 0xFF, 0xFF, 0xFF]])
   \<and> last [0xFF, 0xFF, 0xFF, 0xFF :: byte] = 0xFF"
  by (simp add: RemovePadding_def scan_loop.simps seek_from_end_def read_one_def)

text \<open>
  Claim C8. The second of two calls of RemovePadding in a row is to return 0 and leave the file
  as it is. The code does so whenever the first call returns (\<open>RemovePadding_again\<close>). On the
  empty file the first call raises OSError, the file is unchanged, and the second call raises
  OSError again instead of returning 0.
\<close>

theorem RemovePadding_twice_empty_raises:
  "RemovePadding ''rom.bin'' (snd (RemovePadding ''rom.bin'' [''rom.bin'' \<mapsto> []]))
     = (Inl OSError_EINVAL, [''rom.bin'' \<mapsto> []])"
  by (simp add: RemovePadding_def scan_loop.simps seek_from_end_def read_one_def)

text \<open>
  Claim C9. An error of RemovePadding reaches the caller and leaves the file system as it was:
  a missing file gives FileNotFoundError, an exception of the scan is the result of the call, and
  whenever the result is an error the file system after the call is the one before it, the
  truncation being the last step and the only one that writes.
\<close>

theorem RemovePadding_error_leaves_file:
  assumes "RemovePadding file_path fs = (r, fs')"
  shows "(fs file_path = None \<longrightarrow> r = Inl FileNotFoundError)
       \<and> (fs file_path = Some content \<longrightarrow> scan_loop content 0 = Inl e \<longrightarrow> r = Inl e)
       \<and> (isl r \<longrightarrow> fs' = fs)"
proof -
  have missing: "fs file_path = None \<longrightarrow> r = Inl FileNotFoundError"
    using assms by (auto simp add: RemovePadding_def)
  have scan: "fs file_path = Some content \<longrightarrow> scan_loop content 0 = Inl e \<longrightarrow> r = Inl e"
    using assms by (auto simp add: RemovePadding_def)
  have unchanged: "isl r \<longrightarrow> fs' = fs"
  proof
    assume "isl r"
    then obtain e' where r: "r = Inl e'" by (cases r) simp_all
    have "snd (RemovePadding file_path fs) = fs \<or> (\<exists>n. fst (RemovePadding file_path fs) = Inr n)"
      by (simp add: RemovePadding_def split: option.split sum.split)
    then show "fs' = fs" using assms r by auto
  qed
  show ?thesis using missing scan unchanged by blast
qed

theorem RemovePadding_error_leaves_file_witness:
  "scan_loop [0xFF] 0 = Inl OSError_EINVAL
   \<and> RemovePadding ''rom.bin'' [''rom.bin'' \<mapsto> [0xFF]] = (Inl OSError_EINVAL, [''rom.bin'' \<mapsto> [0xFF]])
   \<and> RemovePadding ''rom.bin'' Map.empty = (Inl FileNotFoundError, Map.empty)"
proof -
  have s: "scan_loop [0xFF] 0 = Inl OSError_EINVAL"
    by (simp add: scan_loop.simps seek_from_end_def read_one_def)
  obtain r fs' where a: "RemovePadding ''rom.bin'' [''rom.bin'' \<mapsto> [0xFF]] = (r, fs')"
    by (cases "RemovePadding ''rom.bin'' [''rom.bin'' \<mapsto> [0xFF]]")
  have "r = Inl OSError_EINVAL \<and> fs' = [''rom.bin'' \<mapsto> [0xFF]]"
    using RemovePadding_error_leaves_file [OF a, of "[0xFF]" OSError_EINVAL] s by auto
  moreover obtain r2 fs2 where b: "RemovePadding ''rom.bin'' Map.empty = (r2, fs2)"
    by (cases "RemovePadding ''rom.bin'' Map.empty")
  have "r2 = Inl FileNotFoundError \<and> fs2 = Map.empty"
    using RemovePadding_error_leaves_file [OF b] by auto
  ultimately show ?thesis using s a b by simp
qed

text \<open>
  Claim C10. With a target size T below the size N of the file, AddPadding raises no error,
  writes the empty byte string (a byte string times the negative count T - N), leaves the file as
  it is and returns the negative number T - N.
\<close>

theorem AddPadding_undersized_target:
  assumes "fs file_path = Some content" "result_size < int (length content)"
  shows "AddPadding file_path result_size fs = (Inr (result_size - int (length content)), fs)
       \<and> result_size - int (length content) < 0
       \<and> bytes_mul [0xFF] (result_size - int (length content)) = []
       \<and> snd (AddPadding file_path result_size fs) file_path = Some content"
proof -
  have "fs(file_path \<mapsto> content) = fs" using assms(1) by (rule map_upd_triv)
  then have "AddPadding file_path result_size fs = (Inr (result_size - int (length content)), fs)"
    using assms by (simp add: AddPadding_existing)
  then show ?thesis using assms by (simp add: bytes_mul_def)
qed

theorem AddPadding_undersized_target_witness:
  "AddPadding ''rom.bin'' 1 [''rom.bin'' \<mapsto> [0x10, 0x20, 0x30, 0x40]]
     = (Inr (- 3), [''rom.bin'' \<mapsto> [0x10, 0x20, 0x30, 0x40]])"
  using AddPadding_undersized_target
    [of "[''rom.bin'' \<mapsto> [0x10, 0x20, 0x30, 0x40]]" "''rom.bin''" "[0x10, 0x20, 0x30, 0x40]" 1]
  by simp

end
